theory Spec2Isabelle
  imports Main "HOL-Library.Word"
begin

section \<open>The navigation core of menu/menu_driver.c\<close>

text \<open>
  The file keeps its navigation state in static variables and exposes it through
  \<^verbatim>\<open>menu_driver_ctl\<close> and \<^verbatim>\<open>menu_driver_iterate\<close>. The embedding passes
  that state explicitly. Integer widths are those of an LP64 target: \<^verbatim>\<open>size_t\<close> is a
  64-bit word and \<^verbatim>\<open>unsigned\<close> a 32-bit word, both wrapping.
\<close>

type_synonym size_t = "64 word"
type_synonym unsigned = "32 word"

definition SCROLL_INDEX_SIZE :: nat where
  "SCROLL_INDEX_SIZE = 2 * (26 + 2) + 1"

subsection \<open>The driver's capability table\<close>

text \<open>
  \<^verbatim>\<open>menu_ctx_driver_t\<close> is a struct of nullable function pointers. The hooks that
  return nothing are kept as a flag (is the pointer non-NULL?); a call of such a hook is
  recorded in a log and has no other modelled effect. The two alphabet hooks receive
  \<^verbatim>\<open>&menu_driver_selection_ptr\<close> and may store through it, so they are functions from
  the old selection to the new one. The iterate hook returns an \<^verbatim>\<open>int\<close>.
\<close>

record menu_ctx_driver =
  iterate :: "(nat \<Rightarrow> int) option"
  navigation_clear :: bool
  navigation_decrement :: bool
  navigation_increment :: bool
  navigation_set :: bool
  navigation_set_last :: bool
  navigation_descend_alphabet :: "(size_t \<Rightarrow> size_t) option"
  navigation_ascend_alphabet :: "(size_t \<Rightarrow> size_t) option"

datatype call =
    Call_navigation_set bool
  | Call_navigation_clear
  | Call_navigation_increment
  | Call_navigation_decrement
  | Call_navigation_set_last
  | Call_navigation_ascend_alphabet
  | Call_navigation_descend_alphabet
  | Call_iterate nat
  | Call_menu_entries_flush_stack
  | Call_menu_display_set_msg_force
  | Call_generic_action_ok_displaylist_push
  | Call_command_event_QUIT

subsection \<open>The static variables\<close>

record menu_state =
  menu_driver_pending_quick_menu :: bool
  menu_driver_pending_quit :: bool
  menu_driver_pending_shutdown :: bool
  menu_driver_ctx :: "menu_ctx_driver option"
  scroll_index_list :: "size_t list"
  scroll_index_size :: unsigned
  scroll_acceleration :: unsigned
  menu_driver_selection_ptr :: size_t
  calls :: "call list"

text \<open>
  What the file reads from its collaborators: \<^verbatim>\<open>menu_entries_get_size()\<close>, the setting
  \<^verbatim>\<open>menu_navigation_wraparound_enable\<close>, and the result of
  \<^verbatim>\<open>command_event(CMD_EVENT_QUIT, NULL)\<close>.
\<close>

record environment =
  menu_entries_get_size :: size_t
  menu_navigation_wraparound_enable :: bool
  command_event_QUIT :: bool

text \<open>
  Undefined behaviour of the C program is a value of its own, distinct from a
  \<^verbatim>\<open>false\<close> return: dereferencing the NULL \<^verbatim>\<open>menu_driver_ctx\<close> (or a NULL
  \<^verbatim>\<open>data\<close> that the code reads without a check), and indexing
  \<^verbatim>\<open>scroll_index_list\<close> at or beyond \<^verbatim>\<open>SCROLL_INDEX_SIZE\<close>.
\<close>

datatype fault = NullDereference | OutOfBounds

definition record_call :: "call \<Rightarrow> menu_state \<Rightarrow> menu_state" where
  "record_call c s = s\<lparr>calls := calls s @ [c]\<rparr>"

definition menu_navigation_get_selection :: "menu_state \<Rightarrow> size_t" where
  "menu_navigation_get_selection s = menu_driver_selection_ptr s"

definition menu_navigation_set_selection :: "size_t \<Rightarrow> menu_state \<Rightarrow> menu_state" where
  "menu_navigation_set_selection val s = s\<lparr>menu_driver_selection_ptr := val\<rparr>"

text \<open>\<^verbatim>\<open>menu_driver_navigation_set\<close> reads \<^verbatim>\<open>menu_driver_ctx->navigation_set\<close>
  without a NULL check on \<^verbatim>\<open>menu_driver_ctx\<close>.\<close>

definition menu_driver_navigation_set :: "bool \<Rightarrow> menu_state \<Rightarrow> fault + menu_state" where
  "menu_driver_navigation_set scroll s =
     (case menu_driver_ctx s of
        None \<Rightarrow> Inl NullDereference
      | Some drv \<Rightarrow>
          Inr (if navigation_set drv then record_call (Call_navigation_set scroll) s else s))"

subsection \<open>\<^verbatim>\<open>menu_driver_iterate\<close>\<close>

definition menu_driver_iterate :: "environment \<Rightarrow> nat \<Rightarrow> menu_state \<Rightarrow> bool \<times> menu_state" where
  "menu_driver_iterate env action s =
     (if menu_driver_pending_quick_menu s then
        (let s1 = s\<lparr>menu_driver_pending_quick_menu := False\<rparr>;
             s2 = record_call Call_menu_entries_flush_stack s1;
             s3 = record_call Call_menu_display_set_msg_force s2;
             s4 = record_call Call_generic_action_ok_displaylist_push s3
         in if menu_driver_pending_quit s4
            then (False, s4\<lparr>menu_driver_pending_quit := False\<rparr>)
            else (True, s4))
      else if menu_driver_pending_quit s then
        (False, s\<lparr>menu_driver_pending_quit := False\<rparr>)
      else if menu_driver_pending_shutdown s then
        (let s1 = s\<lparr>menu_driver_pending_shutdown := False\<rparr>;
             s2 = record_call Call_command_event_QUIT s1
         in if \<not> command_event_QUIT env then (False, s2) else (True, s2))
      else
        (case menu_driver_ctx s of
           None \<Rightarrow> (False, s)
         | Some drv \<Rightarrow>
             (case iterate drv of
                None \<Rightarrow> (False, s)
              | Some f \<Rightarrow>
                  (let s1 = record_call (Call_iterate action) s
                   in if f action = - 1 then (False, s1) else (True, s1)))))"

subsection \<open>The navigation cases of \<^verbatim>\<open>menu_driver_ctl\<close>\<close>

text \<open>
  Each request carries the object its \<^verbatim>\<open>data\<close> pointer refers to; \<open>None\<close> is a NULL
  pointer. A result is the returned \<^verbatim>\<open>bool\<close>, the value the call stored through
  \<^verbatim>\<open>data\<close> (if it stored one), and the state.
\<close>

datatype rarch_menu_ctl_state =
    RARCH_MENU_CTL_NONE
  | RARCH_MENU_CTL_SET_PENDING_QUICK_MENU
  | RARCH_MENU_CTL_SET_PENDING_QUIT
  | RARCH_MENU_CTL_SET_PENDING_SHUTDOWN
  | MENU_NAVIGATION_CTL_CLEAR "bool option"
  | MENU_NAVIGATION_CTL_INCREMENT "unsigned option"
  | MENU_NAVIGATION_CTL_DECREMENT "unsigned option"
  | MENU_NAVIGATION_CTL_SET_LAST
  | MENU_NAVIGATION_CTL_ASCEND_ALPHABET
  | MENU_NAVIGATION_CTL_DESCEND_ALPHABET
  | MENU_NAVIGATION_CTL_CLEAR_SCROLL_INDICES
  | MENU_NAVIGATION_CTL_ADD_SCROLL_INDEX "size_t option"
  | MENU_NAVIGATION_CTL_GET_SCROLL_ACCEL "size_t option"
  | MENU_NAVIGATION_CTL_SET_SCROLL_ACCEL "size_t option"

type_synonym ctl_result = "fault + (bool \<times> size_t option \<times> menu_state)"

definition ctl_break :: "menu_state \<Rightarrow> ctl_result" where
  "ctl_break s = Inr (True, None, s)"

definition ctl_return :: "bool \<Rightarrow> menu_state \<Rightarrow> ctl_result" where
  "ctl_return b s = Inr (b, None, s)"

definition ctl_navigation_clear :: "bool option \<Rightarrow> menu_state \<Rightarrow> ctl_result" where
  "ctl_navigation_clear pending_push s =
     (case menu_driver_navigation_set True (menu_navigation_set_selection 0 s) of
        Inl f \<Rightarrow> Inl f
      | Inr s1 \<Rightarrow>
          (if pending_push \<noteq> None then
             (case menu_driver_ctx s1 of
                None \<Rightarrow> Inl NullDereference
              | Some drv \<Rightarrow>
                  ctl_break (if navigation_clear drv
                             then record_call Call_navigation_clear s1 else s1))
           else ctl_break s1))"

definition ctl_navigation_set_last :: "environment \<Rightarrow> menu_state \<Rightarrow> ctl_result" where
  "ctl_navigation_set_last env s =
     (let menu_list_size = menu_entries_get_size env;
          new_selection = menu_list_size - 1;
          s1 = menu_navigation_set_selection new_selection s
      in case menu_driver_ctx s1 of
           None \<Rightarrow> Inl NullDereference
         | Some drv \<Rightarrow>
             ctl_break (if navigation_set_last drv
                        then record_call Call_navigation_set_last s1 else s1))"

text \<open>The tail of the increment case, after the selection has been moved.\<close>

definition notify_navigation_increment :: "menu_state \<Rightarrow> ctl_result" where
  "notify_navigation_increment s =
     (case menu_driver_ctx s of
        None \<Rightarrow> Inl NullDereference
      | Some drv \<Rightarrow>
          ctl_break (if navigation_increment drv
                     then record_call Call_navigation_increment s else s))"

definition ctl_navigation_increment ::
  "environment \<Rightarrow> unsigned option \<Rightarrow> menu_state \<Rightarrow> ctl_result" where
  "ctl_navigation_increment env data s =
     (case data of
        None \<Rightarrow> Inl NullDereference
      | Some scroll_speed \<Rightarrow>
          (let menu_list_size = menu_entries_get_size env;
               wraparound_enable = menu_navigation_wraparound_enable env
           in if menu_driver_selection_ptr s \<ge> menu_list_size - 1 \<and> \<not> wraparound_enable
              then ctl_return False s
              else if menu_driver_selection_ptr s + ucast scroll_speed < menu_list_size then
                (let idx = menu_driver_selection_ptr s + ucast scroll_speed
                 in case menu_driver_navigation_set True (menu_navigation_set_selection idx s) of
                      Inl f \<Rightarrow> Inl f
                    | Inr s1 \<Rightarrow> notify_navigation_increment s1)
              else if wraparound_enable then
                (case ctl_navigation_clear (Some False) s of
                   Inl f \<Rightarrow> Inl f
                 | Inr (r, out, s1) \<Rightarrow> notify_navigation_increment s1)
              else if menu_list_size > 0 then
                (case ctl_navigation_set_last env s of
                   Inl f \<Rightarrow> Inl f
                 | Inr (r, out, s1) \<Rightarrow> notify_navigation_increment s1)
              else notify_navigation_increment s))"

definition ctl_navigation_decrement ::
  "environment \<Rightarrow> unsigned option \<Rightarrow> menu_state \<Rightarrow> ctl_result" where
  "ctl_navigation_decrement env data s =
     (case data of
        None \<Rightarrow> Inl NullDereference
      | Some scroll_speed \<Rightarrow>
          (let menu_list_size = menu_entries_get_size env;
               wraparound_enable = menu_navigation_wraparound_enable env
           in if menu_driver_selection_ptr s = 0 \<and> \<not> wraparound_enable
              then ctl_return False s
              else
                (let idx = (if menu_driver_selection_ptr s \<ge> ucast scroll_speed
                            then menu_driver_selection_ptr s - ucast scroll_speed
                            else if \<not> wraparound_enable then 0
                            else menu_list_size - 1)
                 in case menu_driver_navigation_set True (menu_navigation_set_selection idx s) of
                      Inl f \<Rightarrow> Inl f
                    | Inr s1 \<Rightarrow>
                        (case menu_driver_ctx s1 of
                           None \<Rightarrow> Inl NullDereference
                         | Some drv \<Rightarrow>
                             ctl_break (if navigation_decrement drv
                                        then record_call Call_navigation_decrement s1
                                        else s1)))))"

text \<open>A read of \<^verbatim>\<open>scroll_index_list[i]\<close>; the array has \<^verbatim>\<open>SCROLL_INDEX_SIZE\<close> slots.\<close>

definition scroll_index_at :: "size_t list \<Rightarrow> nat \<Rightarrow> fault + size_t" where
  "scroll_index_at xs i = (if i < SCROLL_INDEX_SIZE then Inr (xs ! i) else Inl OutOfBounds)"

text \<open>
  The loop of the ascend case,
  \<^verbatim>\<open>while (i < scroll_index_size - 1 && scroll_index_list[i + 1] <= menu_driver_selection_ptr) i++;\<close>
  with \<open>bound\<close> the value of \<^verbatim>\<open>scroll_index_size - 1\<close>. The counter is a
  \<^verbatim>\<open>size_t\<close> that stays below a 32-bit bound, so it cannot wrap and is a \<open>nat\<close> here.
  The result is the final \<^verbatim>\<open>i\<close>.
\<close>

function ascend_scan :: "size_t list \<Rightarrow> nat \<Rightarrow> size_t \<Rightarrow> nat \<Rightarrow> fault + nat" where
  "ascend_scan xs bound sel i =
     (if i < bound then
        (case scroll_index_at xs (i + 1) of
           Inl f \<Rightarrow> Inl f
         | Inr v \<Rightarrow> if v \<le> sel then ascend_scan xs bound sel (i + 1) else Inr i)
      else Inr i)"
  by pat_completeness auto
termination
  by (relation "measure (\<lambda>(xs, bound, sel, i). bound - i)") auto

declare ascend_scan.simps [simp del]

text \<open>
  The loop of the descend case,
  \<^verbatim>\<open>while (i && scroll_index_list[i - 1] >= menu_driver_selection_ptr) i--;\<close>
  started at \<^verbatim>\<open>i = scroll_index_size - 1\<close>.
\<close>

primrec descend_scan :: "size_t list \<Rightarrow> size_t \<Rightarrow> nat \<Rightarrow> fault + nat" where
  "descend_scan xs sel 0 = Inr 0"
| "descend_scan xs sel (Suc j) =
     (case scroll_index_at xs j of
        Inl f \<Rightarrow> Inl f
      | Inr v \<Rightarrow> if v \<ge> sel then descend_scan xs sel j else Inr (Suc j))"

definition notify_navigation_ascend_alphabet :: "menu_state \<Rightarrow> ctl_result" where
  "notify_navigation_ascend_alphabet s =
     (case menu_driver_ctx s of
        None \<Rightarrow> Inl NullDereference
      | Some drv \<Rightarrow>
          (case navigation_ascend_alphabet drv of
             None \<Rightarrow> ctl_break s
           | Some hook \<Rightarrow>
               ctl_break (record_call Call_navigation_ascend_alphabet
                 (s\<lparr>menu_driver_selection_ptr := hook (menu_driver_selection_ptr s)\<rparr>))))"

definition ctl_navigation_ascend_alphabet :: "environment \<Rightarrow> menu_state \<Rightarrow> ctl_result" where
  "ctl_navigation_ascend_alphabet env s =
     (let menu_list_size = menu_entries_get_size env
      in if scroll_index_size s = 0 then ctl_return False s
         else
           (case scroll_index_at (scroll_index_list s) (unat (scroll_index_size s - 1)) of
              Inl f \<Rightarrow> Inl f
            | Inr last_entry \<Rightarrow>
                if menu_driver_selection_ptr s = last_entry
                then notify_navigation_ascend_alphabet
                       (s\<lparr>menu_driver_selection_ptr := menu_list_size - 1\<rparr>)
                else
                  (case ascend_scan (scroll_index_list s) (unat (scroll_index_size s - 1))
                          (menu_driver_selection_ptr s) 0 of
                     Inl f \<Rightarrow> Inl f
                   | Inr i \<Rightarrow>
                       (case scroll_index_at (scroll_index_list s) (i + 1) of
                          Inl f \<Rightarrow> Inl f
                        | Inr v \<Rightarrow>
                            notify_navigation_ascend_alphabet
                              (s\<lparr>menu_driver_selection_ptr :=
                                   (if v \<ge> menu_list_size then menu_list_size - 1 else v)\<rparr>)))))"

definition ctl_navigation_descend_alphabet :: "menu_state \<Rightarrow> ctl_result" where
  "ctl_navigation_descend_alphabet s =
     (if scroll_index_size s = 0 then ctl_return False s
      else if menu_driver_selection_ptr s = 0 then ctl_return False s
      else
        (case descend_scan (scroll_index_list s) (menu_driver_selection_ptr s)
                (unat (scroll_index_size s - 1)) of
           Inl f \<Rightarrow> Inl f
         | Inr i \<Rightarrow>
             (case (if i > 0 then scroll_index_at (scroll_index_list s) (i - 1)
                    else Inr (menu_driver_selection_ptr s)) of
                Inl f \<Rightarrow> Inl f
              | Inr v \<Rightarrow>
                  (let s1 = s\<lparr>menu_driver_selection_ptr := v\<rparr>
                   in case menu_driver_ctx s1 of
                        None \<Rightarrow> Inl NullDereference
                      | Some drv \<Rightarrow>
                          (case navigation_descend_alphabet drv of
                             None \<Rightarrow> ctl_break s1
                           | Some hook \<Rightarrow>
                               ctl_break (record_call Call_navigation_descend_alphabet
                                 (s1\<lparr>menu_driver_selection_ptr :=
                                       hook (menu_driver_selection_ptr s1)\<rparr>)))))))"

text \<open>\<^verbatim>\<open>scroll_index_list[scroll_index_size++] = *sel;\<close> has no bound check.\<close>

definition ctl_navigation_add_scroll_index :: "size_t option \<Rightarrow> menu_state \<Rightarrow> ctl_result" where
  "ctl_navigation_add_scroll_index data s =
     (case data of
        None \<Rightarrow> ctl_return False s
      | Some sel \<Rightarrow>
          (if unat (scroll_index_size s) < SCROLL_INDEX_SIZE
           then ctl_break
                  (s\<lparr>scroll_index_list := (scroll_index_list s)[unat (scroll_index_size s) := sel],
                     scroll_index_size := scroll_index_size s + 1\<rparr>)
           else Inl OutOfBounds))"

definition ctl_navigation_get_scroll_accel :: "size_t option \<Rightarrow> menu_state \<Rightarrow> ctl_result" where
  "ctl_navigation_get_scroll_accel data s =
     (case data of
        None \<Rightarrow> ctl_return False s
      | Some sel \<Rightarrow> Inr (True, Some (ucast (scroll_acceleration s)), s))"

definition ctl_navigation_set_scroll_accel :: "size_t option \<Rightarrow> menu_state \<Rightarrow> ctl_result" where
  "ctl_navigation_set_scroll_accel data s =
     (case data of
        None \<Rightarrow> ctl_return False s
      | Some sel \<Rightarrow> ctl_break (s\<lparr>scroll_acceleration := ucast sel\<rparr>))"

text \<open>The switch of \<^verbatim>\<open>menu_driver_ctl\<close>, restricted to the pending flags and the
  navigation requests.\<close>

definition menu_driver_ctl ::
  "environment \<Rightarrow> rarch_menu_ctl_state \<Rightarrow> menu_state \<Rightarrow> ctl_result" where
  "menu_driver_ctl env state s =
     (case state of
        RARCH_MENU_CTL_SET_PENDING_QUICK_MENU \<Rightarrow>
          ctl_break (s\<lparr>menu_driver_pending_quick_menu := True\<rparr>)
      | RARCH_MENU_CTL_SET_PENDING_QUIT \<Rightarrow>
          ctl_break (s\<lparr>menu_driver_pending_quit := True\<rparr>)
      | RARCH_MENU_CTL_SET_PENDING_SHUTDOWN \<Rightarrow>
          ctl_break (s\<lparr>menu_driver_pending_shutdown := True\<rparr>)
      | MENU_NAVIGATION_CTL_CLEAR data \<Rightarrow> ctl_navigation_clear data s
      | MENU_NAVIGATION_CTL_INCREMENT data \<Rightarrow> ctl_navigation_increment env data s
      | MENU_NAVIGATION_CTL_DECREMENT data \<Rightarrow> ctl_navigation_decrement env data s
      | MENU_NAVIGATION_CTL_SET_LAST \<Rightarrow> ctl_navigation_set_last env s
      | MENU_NAVIGATION_CTL_ASCEND_ALPHABET \<Rightarrow> ctl_navigation_ascend_alphabet env s
      | MENU_NAVIGATION_CTL_DESCEND_ALPHABET \<Rightarrow> ctl_navigation_descend_alphabet s
      | MENU_NAVIGATION_CTL_CLEAR_SCROLL_INDICES \<Rightarrow> ctl_break (s\<lparr>scroll_index_size := 0\<rparr>)
      | MENU_NAVIGATION_CTL_ADD_SCROLL_INDEX data \<Rightarrow> ctl_navigation_add_scroll_index data s
      | MENU_NAVIGATION_CTL_GET_SCROLL_ACCEL data \<Rightarrow> ctl_navigation_get_scroll_accel data s
      | MENU_NAVIGATION_CTL_SET_SCROLL_ACCEL data \<Rightarrow> ctl_navigation_set_scroll_accel data s
      | RARCH_MENU_CTL_NONE \<Rightarrow> ctl_break s)"

text \<open>The static initialisers of the file.\<close>

definition initial_state :: menu_state where
  "initial_state =
     \<lparr>menu_driver_pending_quick_menu = False,
      menu_driver_pending_quit = False,
      menu_driver_pending_shutdown = False,
      menu_driver_ctx = None,
      scroll_index_list = replicate SCROLL_INDEX_SIZE 0,
      scroll_index_size = 0,
      scroll_acceleration = 0,
      menu_driver_selection_ptr = 0,
      calls = []\<rparr>"

subsection \<open>Sequences of requests\<close>

text \<open>Running requests one after the other from a state collects the state after each
  call; undefined behaviour in one call ends the run.\<close>

fun ctl_run ::
  "environment \<Rightarrow> rarch_menu_ctl_state list \<Rightarrow> menu_state \<Rightarrow> fault + menu_state list" where
  "ctl_run env [] s = Inr []"
| "ctl_run env (c # cs) s =
     (case menu_driver_ctl env c s of
        Inl f \<Rightarrow> Inl f
      | Inr (r, out, s1) \<Rightarrow>
          (case ctl_run env cs s1 of
             Inl f \<Rightarrow> Inl f
           | Inr ss \<Rightarrow> Inr (s1 # ss)))"

subsection \<open>Drivers, environments and states used as concrete inputs\<close>

text \<open>A driver table in which every modelled hook is NULL, and one that has every hook
  and leaves the selection it is handed as it is.\<close>

definition menu_ctx_bare :: menu_ctx_driver where
  "menu_ctx_bare =
     \<lparr>iterate = None, navigation_clear = False, navigation_decrement = False,
      navigation_increment = False, navigation_set = False, navigation_set_last = False,
      navigation_descend_alphabet = None, navigation_ascend_alphabet = None\<rparr>"

definition menu_ctx_observer :: menu_ctx_driver where
  "menu_ctx_observer =
     \<lparr>iterate = Some (\<lambda>action. 0), navigation_clear = True, navigation_decrement = True,
      navigation_increment = True, navigation_set = True, navigation_set_last = True,
      navigation_descend_alphabet = Some (\<lambda>p. p), navigation_ascend_alphabet = Some (\<lambda>p. p)\<rparr>"

definition env_of :: "size_t \<Rightarrow> bool \<Rightarrow> environment" where
  "env_of n wrap =
     \<lparr>menu_entries_get_size = n, menu_navigation_wraparound_enable = wrap,
      command_event_QUIT = True\<rparr>"

definition bound_state :: "menu_ctx_driver \<Rightarrow> menu_state" where
  "bound_state drv = initial_state\<lparr>menu_driver_ctx := Some drv\<rparr>"

definition decade_table :: "size_t list" where
  "decade_table = [0, 10, 20, 30, 40, 50, 60, 70, 80, 90]"

definition decade_state :: "size_t \<Rightarrow> menu_state" where
  "decade_state p =
     initial_state\<lparr>menu_driver_ctx := Some menu_ctx_bare,
       scroll_index_list := decade_table @ replicate 47 0,
       scroll_index_size := 10,
       menu_driver_selection_ptr := p\<rparr>"

text \<open>An alphabet hook that is absent, or that does not store through the pointer.\<close>

definition keeps_selection :: "(size_t \<Rightarrow> size_t) option \<Rightarrow> bool" where
  "keeps_selection hook = (hook = None \<or> hook = Some (\<lambda>p. p))"

text \<open>An increment or decrement request with a scroll speed to read.\<close>

definition step_request :: "rarch_menu_ctl_state \<Rightarrow> bool" where
  "step_request c =
     (case c of
        MENU_NAVIGATION_CTL_INCREMENT (Some scroll_speed) \<Rightarrow> True
      | MENU_NAVIGATION_CTL_DECREMENT (Some scroll_speed) \<Rightarrow> True
      | _ \<Rightarrow> False)"

text \<open>The selections of the states of a run.\<close>

definition selections :: "fault + menu_state list \<Rightarrow> fault + size_t list" where
  "selections r = map_sum id (map menu_driver_selection_ptr) r"

text \<open>
  A table as the list population leaves it: the array has its \<^verbatim>\<open>SCROLL_INDEX_SIZE\<close>
  slots, between 1 and \<^verbatim>\<open>SCROLL_INDEX_SIZE\<close> of them are in use, and the used slots are in
  non-decreasing order. \<open>last_entry\<close> is the last used slot. \<open>same_table\<close> relates two
  states with the same table and the same driver.
\<close>

definition table_ok :: "menu_state \<Rightarrow> bool" where
  "table_ok s =
     (length (scroll_index_list s) = SCROLL_INDEX_SIZE
      \<and> 0 < unat (scroll_index_size s)
      \<and> unat (scroll_index_size s) \<le> SCROLL_INDEX_SIZE
      \<and> sorted (take (unat (scroll_index_size s)) (scroll_index_list s)))"

definition last_entry :: "menu_state \<Rightarrow> size_t" where
  "last_entry s = scroll_index_list s ! (unat (scroll_index_size s) - 1)"

definition same_table :: "menu_state \<Rightarrow> menu_state \<Rightarrow> bool" where
  "same_table s s1 =
     (scroll_index_list s1 = scroll_index_list s
      \<and> scroll_index_size s1 = scroll_index_size s
      \<and> menu_driver_ctx s1 = menu_driver_ctx s)"

section \<open>Properties\<close>

lemmas ctl_defs = menu_driver_ctl_def ctl_navigation_increment_def ctl_navigation_decrement_def
  ctl_navigation_clear_def ctl_navigation_set_last_def notify_navigation_increment_def
  menu_driver_navigation_set_def menu_navigation_set_selection_def ctl_break_def ctl_return_def
  record_call_def

lemmas alphabet_defs = menu_driver_ctl_def ctl_navigation_ascend_alphabet_def
  ctl_navigation_descend_alphabet_def notify_navigation_ascend_alphabet_def
  scroll_index_at_def SCROLL_INDEX_SIZE_def ctl_break_def ctl_return_def record_call_def

subsection \<open>Pending flags\<close>

text \<open>
  C9. When \<^verbatim>\<open>menu_driver_pending_quit\<close> and \<^verbatim>\<open>menu_driver_pending_shutdown\<close> are both
  set and \<^verbatim>\<open>menu_driver_pending_quick_menu\<close> is not, one call of
  \<^verbatim>\<open>menu_driver_iterate\<close> returns false and changes nothing but the quit flag, which it
  clears: the shutdown flag is still set afterwards.
\<close>

theorem iterate_quit_before_shutdown:
  assumes "menu_driver_pending_quit s" and "menu_driver_pending_shutdown s"
    and "\<not> menu_driver_pending_quick_menu s"
  shows "menu_driver_iterate env action s = (False, s\<lparr>menu_driver_pending_quit := False\<rparr>)
       \<and> \<not> menu_driver_pending_quit (snd (menu_driver_iterate env action s))
       \<and> menu_driver_pending_shutdown (snd (menu_driver_iterate env action s))"
  using assms by (simp add: menu_driver_iterate_def)

theorem iterate_quit_before_shutdown_witness:
  "menu_driver_iterate (env_of 3 False) 0
     (initial_state\<lparr>menu_driver_pending_quit := True, menu_driver_pending_shutdown := True\<rparr>)
   = (False,
      initial_state\<lparr>menu_driver_pending_quit := False, menu_driver_pending_shutdown := True\<rparr>)"
  using iterate_quit_before_shutdown
    [of "initial_state\<lparr>menu_driver_pending_quit := True, menu_driver_pending_shutdown := True\<rparr>"
        "env_of 3 False" 0]
  by (simp add: initial_state_def)

subsection \<open>Scroll acceleration\<close>

lemma unat_accel_roundtrip:
  "unat (ucast (ucast (v :: size_t) :: unsigned) :: size_t) = unat v mod 2 ^ 32"
proof -
  have "unat (ucast (ucast v :: unsigned) :: size_t) = take_bit 64 (take_bit 32 (unat v))"
    by (simp add: unsigned_ucast_eq unsigned_take_bit_eq)
  also have "\<dots> = take_bit 32 (unat v)"
    by simp
  also have "\<dots> = unat v mod 2 ^ 32"
    by (simp only: take_bit_eq_mod)
  finally show ?thesis .
qed

lemma accel_roundtrip_value:
  "(ucast (ucast (v :: size_t) :: unsigned) :: size_t) = word_of_nat (unat v mod 2 ^ 32)"
proof -
  have "(ucast (ucast v :: unsigned) :: size_t)
          = word_of_nat (unat (ucast (ucast v :: unsigned) :: size_t))"
    by simp
  then show ?thesis
    by (simp only: unat_accel_roundtrip)
qed

lemma accel_roundtrip_exact:
  "((word_of_nat (unat v mod 2 ^ 32) :: size_t) = v) = (unat v < 2 ^ 32)"
proof
  assume "(word_of_nat (unat v mod 2 ^ 32) :: size_t) = v"
  then have "unat (word_of_nat (unat v mod 2 ^ 32) :: size_t) = unat v" by simp
  then have "unat v mod 2 ^ 32 = unat v" by (simp add: unat_of_nat take_bit_eq_mod)
  then show "unat v < 2 ^ 32" by (metis mod_less_divisor zero_less_numeral zero_less_power)
next
  assume "unat v < 2 ^ 32"
  then show "(word_of_nat (unat v mod 2 ^ 32) :: size_t) = v" by simp
qed

text \<open>
  C10. \<^verbatim>\<open>MENU_NAVIGATION_CTL_SET_SCROLL_ACCEL\<close> with the value \<open>v\<close> changes only
  \<^verbatim>\<open>scroll_acceleration\<close>; \<^verbatim>\<open>MENU_NAVIGATION_CTL_GET_SCROLL_ACCEL\<close> then stores
  \<open>v mod 2^32\<close> through its pointer and changes nothing, and that value is \<open>v\<close> exactly when
  \<open>v < 2^32\<close>. The selection and the scroll index table are as before. With a NULL
  \<^verbatim>\<open>data\<close> either request returns false and leaves the state as it is.
\<close>

theorem scroll_accel_set_get:
  "menu_driver_ctl env (MENU_NAVIGATION_CTL_SET_SCROLL_ACCEL (Some v)) s
     = Inr (True, None, s\<lparr>scroll_acceleration := ucast v\<rparr>)
   \<and> menu_driver_ctl env (MENU_NAVIGATION_CTL_GET_SCROLL_ACCEL (Some w))
        (s\<lparr>scroll_acceleration := ucast v\<rparr>)
     = Inr (True, Some (word_of_nat (unat v mod 2 ^ 32)), s\<lparr>scroll_acceleration := ucast v\<rparr>)
   \<and> ((word_of_nat (unat v mod 2 ^ 32) :: size_t) = v) = (unat v < 2 ^ 32)
   \<and> menu_driver_selection_ptr (s\<lparr>scroll_acceleration := ucast v\<rparr>)
       = menu_driver_selection_ptr s
   \<and> scroll_index_list (s\<lparr>scroll_acceleration := ucast v\<rparr>) = scroll_index_list s
   \<and> scroll_index_size (s\<lparr>scroll_acceleration := ucast v\<rparr>) = scroll_index_size s
   \<and> menu_driver_ctl env (MENU_NAVIGATION_CTL_SET_SCROLL_ACCEL None) s = Inr (False, None, s)
   \<and> menu_driver_ctl env (MENU_NAVIGATION_CTL_GET_SCROLL_ACCEL None) s = Inr (False, None, s)"
  using accel_roundtrip_value [of v] accel_roundtrip_exact [of v]
  by (simp add: menu_driver_ctl_def ctl_navigation_set_scroll_accel_def
      ctl_navigation_get_scroll_accel_def ctl_break_def ctl_return_def)

subsection \<open>Increment and decrement\<close>

lemma increment_returns_in_range:
  assumes "0 < menu_entries_get_size env"
    and "menu_driver_selection_ptr s < menu_entries_get_size env"
    and "menu_driver_ctl env (MENU_NAVIGATION_CTL_INCREMENT (Some scroll_speed)) s
           = Inr (r, out, s1)"
  shows "menu_driver_selection_ptr s1 < menu_entries_get_size env
       \<and> menu_driver_ctx s1 = menu_driver_ctx s"
  using assms
  by (auto simp add: ctl_defs Let_def word_less_nat_alt word_le_nat_alt unat_minus_one unat_gt_0
      split: if_splits option.splits)

lemma decrement_returns_in_range:
  assumes "0 < menu_entries_get_size env"
    and "menu_driver_selection_ptr s < menu_entries_get_size env"
    and "menu_driver_ctl env (MENU_NAVIGATION_CTL_DECREMENT (Some scroll_speed)) s
           = Inr (r, out, s1)"
  shows "menu_driver_selection_ptr s1 < menu_entries_get_size env
       \<and> menu_driver_ctx s1 = menu_driver_ctx s"
  using assms
  by (auto simp add: ctl_defs Let_def word_less_nat_alt word_le_nat_alt unat_minus_one unat_gt_0
      unat_sub split: if_splits option.splits)

lemma step_returns_in_range:
  assumes "0 < menu_entries_get_size env"
    and "menu_driver_selection_ptr s < menu_entries_get_size env"
    and "step_request c"
    and "menu_driver_ctl env c s = Inr (r, out, s1)"
  shows "menu_driver_selection_ptr s1 < menu_entries_get_size env
       \<and> menu_driver_ctx s1 = menu_driver_ctx s"
proof (cases c)
  case (MENU_NAVIGATION_CTL_INCREMENT data)
  with assms(3) obtain scroll_speed where "data = Some scroll_speed"
    by (cases data) (simp_all add: step_request_def)
  with MENU_NAVIGATION_CTL_INCREMENT assms(4) show ?thesis
    using increment_returns_in_range [OF assms(1,2)] by simp
next
  case (MENU_NAVIGATION_CTL_DECREMENT data)
  with assms(3) obtain scroll_speed where "data = Some scroll_speed"
    by (cases data) (simp_all add: step_request_def)
  with MENU_NAVIGATION_CTL_DECREMENT assms(4) show ?thesis
    using decrement_returns_in_range [OF assms(1,2)] by simp
qed (use assms(3) in \<open>simp_all add: step_request_def\<close>)

lemma step_returns:
  assumes "menu_driver_ctx s = Some drv" and "step_request c"
  shows "\<exists>r out s1. menu_driver_ctl env c s = Inr (r, out, s1)"
  using assms
  by (cases c) (auto simp add: step_request_def ctl_defs Let_def split: option.splits)

text \<open>
  C2. Take a list of \<open>N > 0\<close> entries, a selection below \<open>N\<close> and any sequence of
  increment and decrement requests (any scroll speeds, either wraparound setting). After
  every request of the sequence that returns, the selection is below \<open>N\<close>; it is
  unsigned, so it is never below 0. With a driver bound every request returns, so the
  whole sequence runs.
\<close>

theorem selection_stays_in_range:
  assumes "0 < menu_entries_get_size env"
    and "menu_driver_selection_ptr s < menu_entries_get_size env"
    and "list_all step_request cs"
  shows "(\<forall>ss. ctl_run env cs s = Inr ss \<longrightarrow>
            length ss = length cs
            \<and> list_all (\<lambda>s1. menu_driver_selection_ptr s1 < menu_entries_get_size env) ss)
       \<and> (menu_driver_ctx s \<noteq> None \<longrightarrow> (\<exists>ss. ctl_run env cs s = Inr ss))"
  using assms(2,3)
proof (induction cs arbitrary: s)
  case Nil
  then show ?case by simp
next
  case (Cons c cs)
  from Cons.prems(2) have c: "step_request c" and cs: "list_all step_request cs"
    by simp_all
  have inv: "menu_driver_selection_ptr s1 < menu_entries_get_size env
      \<and> menu_driver_ctx s1 = menu_driver_ctx s"
    if "menu_driver_ctl env c s = Inr (r, out, s1)" for r out s1
    using step_returns_in_range [OF assms(1) Cons.prems(1) c that] .
  show ?case
  proof (intro conjI allI impI)
    fix ss
    assume run: "ctl_run env (c # cs) s = Inr ss"
    then obtain r out s1 ss1 where step: "menu_driver_ctl env c s = Inr (r, out, s1)"
      and rest: "ctl_run env cs s1 = Inr ss1" and ss: "ss = s1 # ss1"
      by (auto split: sum.splits)
    from inv [OF step] Cons.IH [OF _ cs, of s1] rest
    have "length ss1 = length cs"
      "list_all (\<lambda>s1. menu_driver_selection_ptr s1 < menu_entries_get_size env) ss1"
      by simp_all
    with ss inv [OF step]
    show "length ss = length (c # cs)"
      and "list_all (\<lambda>s1. menu_driver_selection_ptr s1 < menu_entries_get_size env) ss"
      by simp_all
  next
    assume "menu_driver_ctx s \<noteq> None"
    then obtain drv where drv: "menu_driver_ctx s = Some drv" by auto
    from step_returns [OF drv c] obtain r out s1
      where step: "menu_driver_ctl env c s = Inr (r, out, s1)" by blast
    from inv [OF step] drv have "menu_driver_ctx s1 \<noteq> None" by simp
    with inv [OF step] Cons.IH [OF _ cs, of s1] obtain ss1
      where "ctl_run env cs s1 = Inr ss1" by blast
    with step show "\<exists>ss. ctl_run env (c # cs) s = Inr ss" by simp
  qed
qed

theorem selection_stays_in_range_witness:
  "\<exists>ss. ctl_run (env_of 3 True)
           [MENU_NAVIGATION_CTL_INCREMENT (Some 2), MENU_NAVIGATION_CTL_INCREMENT (Some 2),
            MENU_NAVIGATION_CTL_DECREMENT (Some 7)]
           (bound_state menu_ctx_bare) = Inr ss
        \<and> length ss = 3
        \<and> list_all (\<lambda>s1. menu_driver_selection_ptr s1 < 3) ss"
proof -
  let ?cs = "[MENU_NAVIGATION_CTL_INCREMENT (Some 2), MENU_NAVIGATION_CTL_INCREMENT (Some 2),
              MENU_NAVIGATION_CTL_DECREMENT (Some 7)]"
  have n: "menu_entries_get_size (env_of 3 True) = 3"
    by (simp add: env_of_def)
  have "0 < menu_entries_get_size (env_of 3 True)"
    and "menu_driver_selection_ptr (bound_state menu_ctx_bare)
           < menu_entries_get_size (env_of 3 True)"
    and "list_all step_request ?cs"
    by (simp_all add: env_of_def bound_state_def initial_state_def step_request_def)
  note range = selection_stays_in_range [OF this]
  have "menu_driver_ctx (bound_state menu_ctx_bare) \<noteq> None"
    by (simp add: bound_state_def)
  with range obtain ss
    where run: "ctl_run (env_of 3 True) ?cs (bound_state menu_ctx_bare) = Inr ss"
    by blast
  with range have "length ss = length ?cs"
    and "list_all (\<lambda>s1. menu_driver_selection_ptr s1 < menu_entries_get_size (env_of 3 True)) ss"
    by blast+
  with run n show ?thesis by simp
qed

text \<open>
  C8. With a driver bound, a list of \<open>N > 0\<close> entries and wraparound enabled, an increment
  with step 1 from \<open>N - 1\<close> returns true with the selection at 0, and a decrement with
  step 1 from 0 returns true with the selection at \<open>N - 1\<close>.
\<close>

theorem wraparound_at_the_ends:
  assumes "menu_driver_ctx s = Some drv" and "0 < menu_entries_get_size env"
    and "menu_navigation_wraparound_enable env"
  shows "(\<exists>s1. menu_driver_ctl env (MENU_NAVIGATION_CTL_INCREMENT (Some 1))
                  (s\<lparr>menu_driver_selection_ptr := menu_entries_get_size env - 1\<rparr>)
                = Inr (True, None, s1)
              \<and> menu_driver_selection_ptr s1 = 0)
       \<and> (\<exists>s1. menu_driver_ctl env (MENU_NAVIGATION_CTL_DECREMENT (Some 1))
                  (s\<lparr>menu_driver_selection_ptr := 0\<rparr>)
                = Inr (True, None, s1)
              \<and> menu_driver_selection_ptr s1 = menu_entries_get_size env - 1)"
  using assms
  by (auto simp add: ctl_defs Let_def)

theorem wraparound_at_the_ends_witness:
  "(\<exists>s1. menu_driver_ctl (env_of 4 True) (MENU_NAVIGATION_CTL_INCREMENT (Some 1))
            ((bound_state menu_ctx_observer)\<lparr>menu_driver_selection_ptr := 3\<rparr>)
          = Inr (True, None, s1)
        \<and> menu_driver_selection_ptr s1 = 0)
   \<and> (\<exists>s1. menu_driver_ctl (env_of 4 True) (MENU_NAVIGATION_CTL_DECREMENT (Some 1))
            ((bound_state menu_ctx_observer)\<lparr>menu_driver_selection_ptr := 0\<rparr>)
          = Inr (True, None, s1)
        \<and> menu_driver_selection_ptr s1 = 3)"
  using wraparound_at_the_ends [of "bound_state menu_ctx_observer" menu_ctx_observer "env_of 4 True"]
  by (simp add: bound_state_def env_of_def)

lemma increment_unbound:
  assumes "menu_driver_ctx s = None"
  shows "menu_driver_ctl env (MENU_NAVIGATION_CTL_INCREMENT (Some scroll_speed)) s =
     (if menu_driver_selection_ptr s \<ge> menu_entries_get_size env - 1
         \<and> \<not> menu_navigation_wraparound_enable env
      then Inr (False, None, s) else Inl NullDereference)"
  using assms by (simp add: ctl_defs Let_def)

text \<open>
  C1. The increment case reads \<^verbatim>\<open>menu_driver_ctx->navigation_set\<close> and
  \<^verbatim>\<open>menu_driver_ctx->navigation_increment\<close> without testing \<^verbatim>\<open>menu_driver_ctx\<close>.
  From the initial state, where no driver is bound, an increment by 1 in a list of five
  entries moves the selection and then dereferences the NULL pointer.
  \<^verbatim>\<open>menu_driver_iterate\<close>, in the same file and state, tests the pointer and returns false.
\<close>

theorem increment_without_driver:
  "menu_driver_ctl (env_of 5 False) (MENU_NAVIGATION_CTL_INCREMENT (Some 1)) initial_state
     = Inl NullDereference
   \<and> menu_driver_ctx initial_state = None
   \<and> menu_driver_iterate (env_of 5 False) 0 initial_state = (False, initial_state)"
  by (simp add: ctl_defs initial_state_def env_of_def menu_driver_iterate_def)

text \<open>
  C7. The claim that an increment in an empty list returns false and calls no hook fails:
  with the list size 0, wraparound disabled and the selection at 0, the request returns
  true and the driver's \<^verbatim>\<open>navigation_increment\<close> hook is called.
\<close>

theorem increment_empty_list_counterexample:
  "menu_driver_ctl (env_of 0 False) (MENU_NAVIGATION_CTL_INCREMENT (Some 1))
     (bound_state menu_ctx_observer)
   = Inr (True, None, (bound_state menu_ctx_observer)\<lparr>calls := [Call_navigation_increment]\<rparr>)"
  by (simp add: ctl_defs bound_state_def env_of_def menu_ctx_observer_def initial_state_def)

text \<open>
  C7, as the code has it. With the list size 0 and a driver bound, an increment (any step)
  does one of three things. With wraparound enabled it runs the clear request, which sets
  the selection to 0 and calls \<^verbatim>\<open>navigation_set\<close> and \<^verbatim>\<open>navigation_clear\<close>, then it
  calls \<^verbatim>\<open>navigation_increment\<close> and returns true. With wraparound disabled and the
  selection at the largest \<^verbatim>\<open>size_t\<close> it returns false and changes nothing. With
  wraparound disabled otherwise it leaves the selection as it is (the guard
  \<^verbatim>\<open>menu_list_size > 0\<close> skips the set-last request), calls
  \<^verbatim>\<open>navigation_increment\<close> and returns true. Each hook is called only if the driver has it.
\<close>

theorem increment_empty_list:
  assumes "menu_entries_get_size env = 0" and "menu_driver_ctx s = Some drv"
  shows "menu_driver_ctl env (MENU_NAVIGATION_CTL_INCREMENT (Some scroll_speed)) s =
     (if menu_navigation_wraparound_enable env then
        Inr (True, None,
          s\<lparr>menu_driver_selection_ptr := 0,
            calls := calls s
              @ (if navigation_set drv then [Call_navigation_set True] else [])
              @ (if navigation_clear drv then [Call_navigation_clear] else [])
              @ (if navigation_increment drv then [Call_navigation_increment] else [])\<rparr>)
      else if menu_driver_selection_ptr s = - 1 then Inr (False, None, s)
      else
        Inr (True, None,
          s\<lparr>calls := calls s
              @ (if navigation_increment drv then [Call_navigation_increment] else [])\<rparr>))"
  using assms
  by (auto simp add: ctl_defs Let_def word_order.extremum_unique)

theorem increment_empty_list_witness:
  "menu_driver_ctl (env_of 0 True) (MENU_NAVIGATION_CTL_INCREMENT (Some 1))
     ((bound_state menu_ctx_observer)\<lparr>menu_driver_selection_ptr := 3\<rparr>)
   = Inr (True, None,
       (bound_state menu_ctx_observer)
         \<lparr>menu_driver_selection_ptr := 0,
          calls := [Call_navigation_set True, Call_navigation_clear, Call_navigation_increment]\<rparr>)"
  using increment_empty_list
    [of "env_of 0 True" "(bound_state menu_ctx_observer)\<lparr>menu_driver_selection_ptr := 3\<rparr>"
        menu_ctx_observer 1]
  by (simp add: bound_state_def env_of_def menu_ctx_observer_def initial_state_def)

subsection \<open>Set last\<close>

lemma set_last_nonempty_list:
  assumes "menu_driver_ctx s = Some drv"
  shows "\<exists>s1. menu_driver_ctl env MENU_NAVIGATION_CTL_SET_LAST s = Inr (True, None, s1)
     \<and> menu_driver_selection_ptr s1 = menu_entries_get_size env - 1"
  using assms by (simp add: ctl_defs Let_def)

text \<open>
  C6. The set-last case computes \<^verbatim>\<open>menu_list_size - 1\<close> in \<^verbatim>\<open>size_t\<close> without a test
  for an empty list: with the list size 0 the selection becomes \<open>2^64 - 1\<close>, not 0. The
  increment case guards its own use of the request with \<^verbatim>\<open>menu_list_size > 0\<close>.
\<close>

theorem set_last_empty_list:
  "menu_driver_ctl (env_of 0 False) MENU_NAVIGATION_CTL_SET_LAST (bound_state menu_ctx_bare)
     = Inr (True, None,
         (bound_state menu_ctx_bare)\<lparr>menu_driver_selection_ptr := 18446744073709551615\<rparr>)"
  by (simp add: ctl_defs bound_state_def env_of_def menu_ctx_bare_def)

subsection \<open>The scroll index table\<close>

text \<open>
  C3. The claim puts the capacity at 55. \<^verbatim>\<open>SCROLL_INDEX_SIZE\<close> is
  \<^verbatim>\<open>2 * (26 + 2) + 1\<close>, which is 57: an append to a table of 55 entries returns true,
  stores the value in slot 55 and makes the size 56.
\<close>

theorem add_scroll_index_at_55:
  "menu_driver_ctl (env_of 0 False) (MENU_NAVIGATION_CTL_ADD_SCROLL_INDEX (Some 7))
     (initial_state\<lparr>scroll_index_size := 55\<rparr>)
   = Inr (True, None,
       initial_state\<lparr>scroll_index_list := (replicate 57 0)[55 := 7], scroll_index_size := 56\<rparr>)
   \<and> SCROLL_INDEX_SIZE = 57"
  by (simp add: menu_driver_ctl_def ctl_navigation_add_scroll_index_def initial_state_def
      SCROLL_INDEX_SIZE_def ctl_break_def)

text \<open>
  C3, as the code has it. For every size below \<^verbatim>\<open>SCROLL_INDEX_SIZE\<close> (57) an append
  returns true, stores the value in the slot at index size, leaves the other slots as
  they are and increments the size by one.
\<close>

theorem add_scroll_index_below_capacity:
  assumes "unat (scroll_index_size s) < SCROLL_INDEX_SIZE"
    and "length (scroll_index_list s) = SCROLL_INDEX_SIZE"
  shows "\<exists>s1. menu_driver_ctl env (MENU_NAVIGATION_CTL_ADD_SCROLL_INDEX (Some v)) s
                 = Inr (True, None, s1)
          \<and> scroll_index_list s1 ! unat (scroll_index_size s) = v
          \<and> unat (scroll_index_size s1) = unat (scroll_index_size s) + 1
          \<and> length (scroll_index_list s1) = SCROLL_INDEX_SIZE
          \<and> (\<forall>i. i \<noteq> unat (scroll_index_size s) \<longrightarrow>
                scroll_index_list s1 ! i = scroll_index_list s ! i)"
  using assms
  by (simp add: menu_driver_ctl_def ctl_navigation_add_scroll_index_def ctl_break_def
      SCROLL_INDEX_SIZE_def unat_word_ariths)


theorem add_scroll_index_below_capacity_witness:
  "\<exists>s1. menu_driver_ctl (env_of 0 False) (MENU_NAVIGATION_CTL_ADD_SCROLL_INDEX (Some 7))
           (initial_state\<lparr>scroll_index_size := 56\<rparr>)
         = Inr (True, None, s1)
       \<and> scroll_index_list s1 ! 56 = 7
       \<and> unat (scroll_index_size s1) = 57"
proof -
  have size: "unat (scroll_index_size (initial_state\<lparr>scroll_index_size := 56\<rparr>)) = 56"
    by simp
  have "unat (scroll_index_size (initial_state\<lparr>scroll_index_size := 56\<rparr>)) < SCROLL_INDEX_SIZE"
    and "length (scroll_index_list (initial_state\<lparr>scroll_index_size := 56\<rparr>)) = SCROLL_INDEX_SIZE"
    by (simp_all add: initial_state_def SCROLL_INDEX_SIZE_def)
  from add_scroll_index_below_capacity [OF this, of "env_of 0 False" 7] size
  show ?thesis by auto
qed

subsection \<open>Alphabet jumps\<close>

text \<open>
  The state of the scenario below is one the requests produce: from the initial state
  with a driver bound, clearing the table and appending 0, 10, ..., 90 gives
  \<open>decade_state 0\<close>, and \<^verbatim>\<open>menu_navigation_set_selection\<close> moves the selection.
\<close>

lemma scroll_slots_unfold:
  fixes v :: size_t
  shows "replicate (numeral k) v = v # replicate (numeral k - 1) v"
  by (simp add: numeral_eq_Suc)

lemma scroll_slots_store:
  fixes v w :: size_t
  shows "(v # vs)[numeral k := w] = v # vs[numeral k - 1 := w]"
  by (simp add: numeral_eq_Suc)

lemma decade_state_reachable:
  "map_sum id last (ctl_run (env_of 100 False)
      (MENU_NAVIGATION_CTL_CLEAR_SCROLL_INDICES
         # map (\<lambda>v. MENU_NAVIGATION_CTL_ADD_SCROLL_INDEX (Some v)) decade_table)
      (bound_state menu_ctx_bare))
   = Inr (decade_state 0)"
  by (simp add: menu_driver_ctl_def ctl_navigation_add_scroll_index_def ctl_break_def
      decade_table_def decade_state_def bound_state_def initial_state_def SCROLL_INDEX_SIZE_def
      scroll_slots_unfold scroll_slots_store)

lemma decade_state_selection:
  "menu_navigation_set_selection p (decade_state 0) = decade_state p"
  by (simp add: menu_navigation_set_selection_def decade_state_def)

lemma descend_scan_numeral:
  "descend_scan xs sel (numeral k) =
     (case scroll_index_at xs (pred_numeral k) of
        Inl f \<Rightarrow> Inl f
      | Inr v \<Rightarrow> if v \<ge> sel then descend_scan xs sel (pred_numeral k)
                 else Inr (numeral k))"
  unfolding numeral_eq_Suc by simp

text \<open>
  C5. With 100 entries, a table whose first ten slots are 0, 10, ..., 90 and whose size
  is 10, the selection at 15, and a bound driver whose alphabet hooks (if it has them)
  leave the selection they are handed as it is: an ascend request returns true with the
  selection at 20, and a descend request after it returns true with the selection at 10.
\<close>

theorem decade_scenario:
  assumes "menu_entries_get_size env = 100" and "menu_driver_ctx s = Some drv"
    and "keeps_selection (navigation_ascend_alphabet drv)"
    and "keeps_selection (navigation_descend_alphabet drv)"
    and "scroll_index_size s = 10"
    and "take 10 (scroll_index_list s) = [0, 10, 20, 30, 40, 50, 60, 70, 80, 90]"
    and "menu_driver_selection_ptr s = 15"
  shows "\<exists>s1 s2. menu_driver_ctl env MENU_NAVIGATION_CTL_ASCEND_ALPHABET s = Inr (True, None, s1)
           \<and> menu_driver_selection_ptr s1 = 20
           \<and> menu_driver_ctl env MENU_NAVIGATION_CTL_DESCEND_ALPHABET s1 = Inr (True, None, s2)
           \<and> menu_driver_selection_ptr s2 = 10"
proof -
  define xs where "xs = scroll_index_list s"
  have nth: "\<And>i. i < 10 \<Longrightarrow> xs ! i = [0, 10, 20, 30, 40, 50, 60, 70, 80, 90 :: size_t] ! i"
    using assms(6) by (metis nth_take xs_def)
  have up: "ascend_scan xs 9 15 0 = Inr 1"
    by (simp add: ascend_scan.simps scroll_index_at_def SCROLL_INDEX_SIZE_def nth)
  have down: "descend_scan xs 20 9 = Inr 2"
    by (simp add: descend_scan_numeral scroll_index_at_def SCROLL_INDEX_SIZE_def nth)
  define s1 where "s1 = (case navigation_ascend_alphabet drv of
      None \<Rightarrow> s\<lparr>menu_driver_selection_ptr := 20\<rparr>
    | Some hook \<Rightarrow> record_call Call_navigation_ascend_alphabet
        (s\<lparr>menu_driver_selection_ptr := 20\<rparr>))"
  define s2 where "s2 = (case navigation_descend_alphabet drv of
      None \<Rightarrow> s1\<lparr>menu_driver_selection_ptr := 10\<rparr>
    | Some hook \<Rightarrow> record_call Call_navigation_descend_alphabet
        (s1\<lparr>menu_driver_selection_ptr := 10\<rparr>))"
  have s1: "menu_driver_selection_ptr s1 = 20" "scroll_index_list s1 = xs"
    "scroll_index_size s1 = 10" "menu_driver_ctx s1 = Some drv"
    using assms(2,5)
    by (simp_all add: s1_def xs_def record_call_def split: option.split)
  have s2: "menu_driver_selection_ptr s2 = 10"
    by (simp add: s2_def record_call_def split: option.split)
  have "menu_driver_ctl env MENU_NAVIGATION_CTL_ASCEND_ALPHABET s = Inr (True, None, s1)"
    using assms(1-5,7) up
    by (auto simp add: alphabet_defs xs_def [symmetric] keeps_selection_def nth s1_def)
  moreover
  have "menu_driver_ctl env MENU_NAVIGATION_CTL_DESCEND_ALPHABET s1 = Inr (True, None, s2)"
    using assms(4) s1 down
    by (auto simp add: alphabet_defs keeps_selection_def nth s2_def)
  ultimately show ?thesis
    using s1(1) s2 by blast
qed

theorem decade_scenario_witness:
  "\<exists>s1 s2. menu_driver_ctl (env_of 100 False) MENU_NAVIGATION_CTL_ASCEND_ALPHABET
              (decade_state 15) = Inr (True, None, s1)
         \<and> menu_driver_selection_ptr s1 = 20
         \<and> menu_driver_ctl (env_of 100 False) MENU_NAVIGATION_CTL_DESCEND_ALPHABET s1
             = Inr (True, None, s2)
         \<and> menu_driver_selection_ptr s2 = 10"
  using decade_scenario [of "env_of 100 False" "decade_state 15" menu_ctx_bare]
  by (simp add: env_of_def decade_state_def decade_table_def menu_ctx_bare_def
      keeps_selection_def)

lemma ascend_scan_result:
  assumes "bound < SCROLL_INDEX_SIZE" and "i \<le> bound"
  shows "\<exists>j. ascend_scan xs bound sel i = Inr j \<and> i \<le> j \<and> j \<le> bound
           \<and> (j < bound \<longrightarrow> sel < xs ! (j + 1))
           \<and> (\<forall>k. i < k \<and> k \<le> j \<longrightarrow> xs ! k \<le> sel)"
  using assms
proof (induction xs bound sel i rule: ascend_scan.induct)
  case (1 xs bound sel i)
  show ?case
  proof (cases "i < bound")
    case False
    then have "ascend_scan xs bound sel i = Inr i"
      by (subst ascend_scan.simps) simp
    with False "1.prems" show ?thesis by auto
  next
    case True
    then have rd: "scroll_index_at xs (i + 1) = Inr (xs ! (i + 1))"
      using "1.prems" by (simp add: scroll_index_at_def)
    show ?thesis
    proof (cases "xs ! (i + 1) \<le> sel")
      case False
      with True rd have "ascend_scan xs bound sel i = Inr i"
        by (subst ascend_scan.simps) simp
      with True False show ?thesis by (auto simp add: not_le)
    next
      case le: True
      from True have "i + 1 \<le> bound" by simp
      from "1.IH" [OF True rd le "1.prems"(1) this] obtain j
        where j: "ascend_scan xs bound sel (i + 1) = Inr j" "i + 1 \<le> j" "j \<le> bound"
          "j < bound \<longrightarrow> sel < xs ! (j + 1)" "\<forall>k. i + 1 < k \<and> k \<le> j \<longrightarrow> xs ! k \<le> sel"
        by blast
      have below: "\<forall>k. i < k \<and> k \<le> j \<longrightarrow> xs ! k \<le> sel"
      proof (intro allI impI)
        fix k assume k: "i < k \<and> k \<le> j"
        show "xs ! k \<le> sel"
        proof (cases "k = i + 1")
          case True with le show ?thesis by simp
        next
          case False with k j(5) show ?thesis by simp
        qed
      qed
      from True rd le j(1) have "ascend_scan xs bound sel i = Inr j"
        by (subst ascend_scan.simps) simp
      with j(2-4) below show ?thesis by simp
    qed
  qed
qed

lemma table_nth_mono:
  assumes "table_ok s" and "i \<le> j" and "j < unat (scroll_index_size s)"
  shows "scroll_index_list s ! i \<le> scroll_index_list s ! j"
proof -
  let ?n = "unat (scroll_index_size s)"
  from assms(1) have srt: "sorted (take ?n (scroll_index_list s))"
    and len: "?n \<le> length (scroll_index_list s)"
    by (simp_all add: table_ok_def)
  from len assms(3) have "j < length (take ?n (scroll_index_list s))" by simp
  with srt assms(2) have "take ?n (scroll_index_list s) ! i \<le> take ?n (scroll_index_list s) ! j"
    by (rule sorted_nth_mono)
  with assms(2,3) show ?thesis by simp
qed

lemma notify_ascend_keeps:
  assumes "menu_driver_ctx s = Some drv" and "keeps_selection (navigation_ascend_alphabet drv)"
  shows "\<exists>s1. notify_navigation_ascend_alphabet (s\<lparr>menu_driver_selection_ptr := v\<rparr>)
                 = Inr (True, None, s1)
           \<and> same_table s s1 \<and> menu_driver_selection_ptr s1 = v"
  using assms
  by (auto simp add: notify_navigation_ascend_alphabet_def keeps_selection_def ctl_break_def
      record_call_def same_table_def)

lemma ascend_at_last_entry:
  assumes "table_ok s" and "menu_driver_ctx s = Some drv"
    and "keeps_selection (navigation_ascend_alphabet drv)"
    and "menu_driver_selection_ptr s = last_entry s"
  shows "\<exists>s1. menu_driver_ctl env MENU_NAVIGATION_CTL_ASCEND_ALPHABET s = Inr (True, None, s1)
           \<and> same_table s s1
           \<and> menu_driver_selection_ptr s1 = menu_entries_get_size env - 1"
proof -
  let ?n = "unat (scroll_index_size s)"
  from assms(1) have n: "0 < ?n" "?n \<le> SCROLL_INDEX_SIZE" by (simp_all add: table_ok_def)
  then have nz: "scroll_index_size s \<noteq> 0" by (simp add: unat_gt_0)
  then have b: "unat (scroll_index_size s - 1) = ?n - 1" by (rule unat_minus_one)
  with n have rd: "scroll_index_at (scroll_index_list s) (unat (scroll_index_size s - 1))
      = Inr (last_entry s)"
    by (simp add: scroll_index_at_def last_entry_def)
  from notify_ascend_keeps [OF assms(2,3), of "menu_entries_get_size env - 1"] obtain s1
    where s1: "notify_navigation_ascend_alphabet
        (s\<lparr>menu_driver_selection_ptr := menu_entries_get_size env - 1\<rparr>) = Inr (True, None, s1)"
      "same_table s s1" "menu_driver_selection_ptr s1 = menu_entries_get_size env - 1"
    by blast
  have "menu_driver_ctl env MENU_NAVIGATION_CTL_ASCEND_ALPHABET s = Inr (True, None, s1)"
    using nz rd assms(4) s1(1)
    by (simp add: menu_driver_ctl_def ctl_navigation_ascend_alphabet_def Let_def)
  with s1(2,3) show ?thesis by blast
qed

lemma ascend_below_last_entry:
  assumes "table_ok s" and "menu_driver_ctx s = Some drv"
    and "keeps_selection (navigation_ascend_alphabet drv)"
    and "0 < menu_entries_get_size env"
    and "last_entry s \<le> menu_entries_get_size env - 1"
    and "menu_driver_selection_ptr s < last_entry s"
    and "2 \<le> unat (scroll_index_size s)"
  shows "\<exists>s1. menu_driver_ctl env MENU_NAVIGATION_CTL_ASCEND_ALPHABET s = Inr (True, None, s1)
           \<and> same_table s s1
           \<and> menu_driver_selection_ptr s < menu_driver_selection_ptr s1
           \<and> menu_driver_selection_ptr s1 \<le> last_entry s"
proof -
  let ?n = "unat (scroll_index_size s)"
  let ?xs = "scroll_index_list s"
  let ?sel = "menu_driver_selection_ptr s"
  from assms(1) have n: "0 < ?n" "?n \<le> SCROLL_INDEX_SIZE" by (simp_all add: table_ok_def)
  then have nz: "scroll_index_size s \<noteq> 0" by (simp add: unat_gt_0)
  then have b: "unat (scroll_index_size s - 1) = ?n - 1" by (rule unat_minus_one)
  with n have rd: "scroll_index_at ?xs (unat (scroll_index_size s - 1)) = Inr (last_entry s)"
    by (simp add: scroll_index_at_def last_entry_def)
  from n have "?n - 1 < SCROLL_INDEX_SIZE" by simp
  from ascend_scan_result [OF this, of 0 ?xs ?sel] obtain j
    where j: "ascend_scan ?xs (?n - 1) ?sel 0 = Inr j" "j \<le> ?n - 1"
      "j < ?n - 1 \<longrightarrow> ?sel < ?xs ! (j + 1)" "\<forall>k. 0 < k \<and> k \<le> j \<longrightarrow> ?xs ! k \<le> ?sel"
    by auto
  have "j \<noteq> ?n - 1"
  proof
    assume "j = ?n - 1"
    with j(4) assms(7) have "?xs ! (?n - 1) \<le> ?sel" by simp
    with assms(6) show False by (simp add: last_entry_def)
  qed
  with j(2) have lt: "j < ?n - 1" by simp
  with j(3) have up: "?sel < ?xs ! (j + 1)" by simp
  from lt n have rd2: "scroll_index_at ?xs (j + 1) = Inr (?xs ! (j + 1))"
    by (simp add: scroll_index_at_def)
  from lt have "j + 1 \<le> ?n - 1" "?n - 1 < ?n" by simp_all
  with table_nth_mono [OF assms(1)] have le: "?xs ! (j + 1) \<le> last_entry s"
    by (simp add: last_entry_def)
  from assms(4) have pos: "0 < unat (menu_entries_get_size env)"
    by (simp only: word_less_nat_alt unat_0)
  then have "menu_entries_get_size env \<noteq> 0" by auto
  then have "unat (menu_entries_get_size env - 1) = unat (menu_entries_get_size env) - 1"
    by (rule unat_minus_one)
  moreover from le assms(5) have "unat (?xs ! (j + 1)) \<le> unat (menu_entries_get_size env - 1)"
    by (simp only: word_le_nat_alt)
  ultimately have "unat (?xs ! (j + 1)) < unat (menu_entries_get_size env)"
    using pos by linarith
  then have inside: "\<not> menu_entries_get_size env \<le> ?xs ! (j + 1)"
    by (simp only: word_le_nat_alt not_le)
  from assms(6) have ne: "?sel \<noteq> last_entry s" by simp
  from notify_ascend_keeps [OF assms(2,3), of "?xs ! (j + 1)"] obtain s1
    where s1: "notify_navigation_ascend_alphabet
        (s\<lparr>menu_driver_selection_ptr := ?xs ! (j + 1)\<rparr>) = Inr (True, None, s1)"
      "same_table s s1" "menu_driver_selection_ptr s1 = ?xs ! (j + 1)"
    by blast
  have "menu_driver_ctl env MENU_NAVIGATION_CTL_ASCEND_ALPHABET s = Inr (True, None, s1)"
    using nz rd ne j(1) b rd2 inside s1(1)
    by (simp add: menu_driver_ctl_def ctl_navigation_ascend_alphabet_def Let_def)
  with s1(2,3) up le show ?thesis by auto
qed

lemma same_table_ok:
  assumes "same_table s s1" and "table_ok s"
  shows "table_ok s1" and "last_entry s1 = last_entry s"
  using assms by (simp_all add: same_table_def table_ok_def last_entry_def)

lemma same_table_trans:
  "same_table s s1 \<Longrightarrow> same_table s1 s2 \<Longrightarrow> same_table s s2"
  by (simp add: same_table_def)

lemma ascend_run_to_the_end:
  assumes "table_ok s" and "menu_driver_ctx s = Some drv"
    and "keeps_selection (navigation_ascend_alphabet drv)"
    and "0 < menu_entries_get_size env"
    and "last_entry s = menu_entries_get_size env - 1"
    and "menu_driver_selection_ptr s \<le> last_entry s"
    and "2 \<le> unat (scroll_index_size s) \<or> menu_driver_selection_ptr s = last_entry s"
  shows "\<exists>ss. ctl_run env (replicate k MENU_NAVIGATION_CTL_ASCEND_ALPHABET) s = Inr ss
           \<and> length ss = k
           \<and> sorted (menu_driver_selection_ptr s # map menu_driver_selection_ptr ss)
           \<and> list_all (\<lambda>s1. menu_driver_selection_ptr s1 \<le> menu_entries_get_size env - 1) ss
           \<and> (menu_driver_selection_ptr s = menu_entries_get_size env - 1 \<longrightarrow>
                list_all (\<lambda>s1. menu_driver_selection_ptr s1 = menu_entries_get_size env - 1) ss)"
  using assms
proof (induction k arbitrary: s)
  case 0
  then show ?case by simp
next
  case (Suc k)
  let ?sel = menu_driver_selection_ptr
  let ?last = "menu_entries_get_size env - 1"
  have "\<exists>s1. menu_driver_ctl env MENU_NAVIGATION_CTL_ASCEND_ALPHABET s = Inr (True, None, s1)
          \<and> same_table s s1 \<and> ?sel s \<le> ?sel s1 \<and> ?sel s1 \<le> last_entry s
          \<and> (?sel s = ?last \<longrightarrow> ?sel s1 = ?last)"
  proof (cases "?sel s = last_entry s")
    case True
    from ascend_at_last_entry [OF Suc.prems(1-3) True, of env] Suc.prems(5) True
    show ?thesis by auto
  next
    case False
    with Suc.prems(6,7) have "?sel s < last_entry s" "2 \<le> unat (scroll_index_size s)"
      by simp_all
    from ascend_below_last_entry [OF Suc.prems(1-4) _ this] Suc.prems(5) False
    show ?thesis by auto
  qed
  then obtain s1
    where step: "menu_driver_ctl env MENU_NAVIGATION_CTL_ASCEND_ALPHABET s = Inr (True, None, s1)"
      and same: "same_table s s1" and up: "?sel s \<le> ?sel s1" and le: "?sel s1 \<le> last_entry s"
      and stay: "?sel s = ?last \<longrightarrow> ?sel s1 = ?last"
    by blast
  from same Suc.prems(1) have ok1: "table_ok s1" and last1: "last_entry s1 = last_entry s"
    by (rule same_table_ok)+
  from same Suc.prems(2) have drv1: "menu_driver_ctx s1 = Some drv"
    by (simp add: same_table_def)
  from same have size1: "scroll_index_size s1 = scroll_index_size s"
    by (simp add: same_table_def)
  have pre1: "2 \<le> unat (scroll_index_size s1) \<or> ?sel s1 = last_entry s1"
  proof (cases "2 \<le> unat (scroll_index_size s)")
    case True
    with size1 show ?thesis by simp
  next
    case False
    with Suc.prems(7) have "?sel s = last_entry s" by simp
    with up le last1 show ?thesis by simp
  qed
  from Suc.IH [OF ok1 drv1 Suc.prems(3,4) _ _ pre1] last1 le Suc.prems(5) obtain ss
    where ss: "ctl_run env (replicate k MENU_NAVIGATION_CTL_ASCEND_ALPHABET) s1 = Inr ss"
      "length ss = k" "sorted (?sel s1 # map ?sel ss)"
      "list_all (\<lambda>s1. ?sel s1 \<le> ?last) ss"
      "?sel s1 = ?last \<longrightarrow> list_all (\<lambda>s1. ?sel s1 = ?last) ss"
    by auto
  from le Suc.prems(5) have "?sel s1 \<le> ?last" by simp
  with step ss up stay show ?case by auto
qed

text \<open>
  C4. The claim fails where the last table entry is below \<open>N - 1\<close>. With 100 entries and
  the used slots 0, 10, ..., 90 (the slots after them hold 0, as the static array does
  before anything is stored there), an ascend request at 90 moves the selection to 99 and
  the next one moves it to 0: at 99 the scan runs to the end of the used slots and the
  request takes the slot after them. The same happens from any selection above the last
  entry, as from 95.
\<close>

theorem ascend_alphabet_counterexample:
  "table_ok (decade_state 90) \<and> last_entry (decade_state 90) = 90
   \<and> selections (ctl_run (env_of 100 False)
        [MENU_NAVIGATION_CTL_ASCEND_ALPHABET, MENU_NAVIGATION_CTL_ASCEND_ALPHABET]
        (decade_state 90)) = Inr [99, 0]
   \<and> selections (ctl_run (env_of 100 False) [MENU_NAVIGATION_CTL_ASCEND_ALPHABET]
        (decade_state 95)) = Inr [0]"
  by (simp add: table_ok_def last_entry_def selections_def alphabet_defs ascend_scan.simps
      decade_state_def decade_table_def initial_state_def env_of_def menu_ctx_bare_def)

text \<open>
  C4, as the code has it. Take a table with between 1 and \<^verbatim>\<open>SCROLL_INDEX_SIZE\<close> used
  slots in non-decreasing order, its last entry \<open>L\<close> at most \<open>N - 1\<close> with \<open>N > 0\<close>, and a
  bound driver whose ascend hook (if it has one) leaves the selection it is handed as it
  is. Then an ascend request returns true and leaves the table as it is, and
  \<^item> from a selection below \<open>L\<close>, in a table with at least two used slots, the new
    selection is above the old one and at most \<open>L\<close>;
  \<^item> from the selection \<open>L\<close> the new selection is \<open>N - 1\<close>;
  \<^item> when \<open>L = N - 1\<close> and the selection starts at most \<open>L\<close> (at \<open>L\<close> itself if
    the table has one used slot), any number of ascend requests in a row run to their
    end, the selection never decreases and never exceeds \<open>N - 1\<close>, and from \<open>N - 1\<close> it
    stays at \<open>N - 1\<close>.
  Nothing is said about a selection above \<open>L\<close>, or below \<open>L\<close> in a table with one used
  slot: there the request takes the slot after the scanned ones.
\<close>

theorem ascend_alphabet_steps:
  assumes "table_ok s" and "menu_driver_ctx s = Some drv"
    and "keeps_selection (navigation_ascend_alphabet drv)"
    and "0 < menu_entries_get_size env"
    and "last_entry s \<le> menu_entries_get_size env - 1"
  shows "(menu_driver_selection_ptr s < last_entry s \<and> 2 \<le> unat (scroll_index_size s) \<longrightarrow>
           (\<exists>s1. menu_driver_ctl env MENU_NAVIGATION_CTL_ASCEND_ALPHABET s = Inr (True, None, s1)
                \<and> same_table s s1
                \<and> menu_driver_selection_ptr s < menu_driver_selection_ptr s1
                \<and> menu_driver_selection_ptr s1 \<le> last_entry s))
       \<and> (menu_driver_selection_ptr s = last_entry s \<longrightarrow>
           (\<exists>s1. menu_driver_ctl env MENU_NAVIGATION_CTL_ASCEND_ALPHABET s = Inr (True, None, s1)
                \<and> same_table s s1
                \<and> menu_driver_selection_ptr s1 = menu_entries_get_size env - 1))
       \<and> (last_entry s = menu_entries_get_size env - 1
            \<and> menu_driver_selection_ptr s \<le> last_entry s
            \<and> (2 \<le> unat (scroll_index_size s) \<or> menu_driver_selection_ptr s = last_entry s) \<longrightarrow>
           (\<forall>k. \<exists>ss. ctl_run env (replicate k MENU_NAVIGATION_CTL_ASCEND_ALPHABET) s = Inr ss
                \<and> length ss = k
                \<and> sorted (menu_driver_selection_ptr s # map menu_driver_selection_ptr ss)
                \<and> list_all (\<lambda>s1. menu_driver_selection_ptr s1 \<le> menu_entries_get_size env - 1) ss
                \<and> (menu_driver_selection_ptr s = menu_entries_get_size env - 1 \<longrightarrow>
                     list_all (\<lambda>s1. menu_driver_selection_ptr s1 = menu_entries_get_size env - 1)
                       ss)))"
proof (intro conjI impI allI)
  assume "menu_driver_selection_ptr s < last_entry s \<and> 2 \<le> unat (scroll_index_size s)"
  then show "\<exists>s1. menu_driver_ctl env MENU_NAVIGATION_CTL_ASCEND_ALPHABET s = Inr (True, None, s1)
                \<and> same_table s s1
                \<and> menu_driver_selection_ptr s < menu_driver_selection_ptr s1
                \<and> menu_driver_selection_ptr s1 \<le> last_entry s"
    using ascend_below_last_entry [OF assms] by simp
next
  assume "menu_driver_selection_ptr s = last_entry s"
  then show "\<exists>s1. menu_driver_ctl env MENU_NAVIGATION_CTL_ASCEND_ALPHABET s = Inr (True, None, s1)
                \<and> same_table s s1
                \<and> menu_driver_selection_ptr s1 = menu_entries_get_size env - 1"
    by (rule ascend_at_last_entry [OF assms(1-3)])
next
  fix k
  assume "last_entry s = menu_entries_get_size env - 1
            \<and> menu_driver_selection_ptr s \<le> last_entry s
            \<and> (2 \<le> unat (scroll_index_size s) \<or> menu_driver_selection_ptr s = last_entry s)"
  then have end_of_list: "last_entry s = menu_entries_get_size env - 1"
    and start: "menu_driver_selection_ptr s \<le> last_entry s"
    and two: "2 \<le> unat (scroll_index_size s) \<or> menu_driver_selection_ptr s = last_entry s"
    by blast+
  show "\<exists>ss. ctl_run env (replicate k MENU_NAVIGATION_CTL_ASCEND_ALPHABET) s = Inr ss
                \<and> length ss = k
                \<and> sorted (menu_driver_selection_ptr s # map menu_driver_selection_ptr ss)
                \<and> list_all (\<lambda>s1. menu_driver_selection_ptr s1 \<le> menu_entries_get_size env - 1) ss
                \<and> (menu_driver_selection_ptr s = menu_entries_get_size env - 1 \<longrightarrow>
                     list_all (\<lambda>s1. menu_driver_selection_ptr s1 = menu_entries_get_size env - 1)
                       ss)"
    by (rule ascend_run_to_the_end [OF assms(1-4) end_of_list start two])
qed

theorem ascend_alphabet_steps_witness:
  "(\<exists>s1. menu_driver_ctl (env_of 91 False) MENU_NAVIGATION_CTL_ASCEND_ALPHABET (decade_state 15)
            = Inr (True, None, s1)
        \<and> 15 < menu_driver_selection_ptr s1 \<and> menu_driver_selection_ptr s1 \<le> 90)
   \<and> (\<exists>s1. menu_driver_ctl (env_of 91 False) MENU_NAVIGATION_CTL_ASCEND_ALPHABET (decade_state 90)
            = Inr (True, None, s1)
        \<and> menu_driver_selection_ptr s1 = 90)
   \<and> (\<exists>ss. ctl_run (env_of 91 False) (replicate 12 MENU_NAVIGATION_CTL_ASCEND_ALPHABET)
            (decade_state 15) = Inr ss
        \<and> length ss = 12
        \<and> sorted (15 # map menu_driver_selection_ptr ss)
        \<and> list_all (\<lambda>s1. menu_driver_selection_ptr s1 \<le> 90) ss)"
proof -
  have ok: "table_ok (decade_state p)" for p
    by (simp add: table_ok_def decade_state_def decade_table_def initial_state_def
        SCROLL_INDEX_SIZE_def)
  have last: "last_entry (decade_state p) = 90" for p
    by (simp add: last_entry_def decade_state_def decade_table_def)
  have drv: "menu_driver_ctx (decade_state p) = Some menu_ctx_bare" for p
    by (simp add: decade_state_def)
  have keeps: "keeps_selection (navigation_ascend_alphabet menu_ctx_bare)"
    by (simp add: keeps_selection_def menu_ctx_bare_def)
  have pos: "0 < menu_entries_get_size (env_of 91 False)"
    by (simp add: env_of_def)
  have le: "last_entry (decade_state p) \<le> menu_entries_get_size (env_of 91 False) - 1" for p
    by (simp add: last env_of_def)
  have n: "menu_entries_get_size (env_of 91 False) - 1 = 90"
    by (simp add: env_of_def)
  have sel: "menu_driver_selection_ptr (decade_state p) = p" for p
    by (simp add: decade_state_def)
  have size: "unat (scroll_index_size (decade_state p)) = 10" for p
    by (simp add: decade_state_def)
  from ascend_alphabet_steps [OF ok drv keeps pos le, of 15]
  have "\<exists>s1. menu_driver_ctl (env_of 91 False) MENU_NAVIGATION_CTL_ASCEND_ALPHABET (decade_state 15)
            = Inr (True, None, s1)
        \<and> 15 < menu_driver_selection_ptr s1 \<and> menu_driver_selection_ptr s1 \<le> 90"
    by (auto simp add: last sel size)
  moreover
  from ascend_alphabet_steps [OF ok drv keeps pos le, of 90]
  have "\<exists>s1. menu_driver_ctl (env_of 91 False) MENU_NAVIGATION_CTL_ASCEND_ALPHABET (decade_state 90)
            = Inr (True, None, s1)
        \<and> menu_driver_selection_ptr s1 = 90"
    by (auto simp add: last sel n)
  moreover
  from ascend_alphabet_steps [OF ok drv keeps pos le, of 15]
  have "\<exists>ss. ctl_run (env_of 91 False) (replicate 12 MENU_NAVIGATION_CTL_ASCEND_ALPHABET)
            (decade_state 15) = Inr ss
        \<and> length ss = 12
        \<and> sorted (15 # map menu_driver_selection_ptr ss)
        \<and> list_all (\<lambda>s1. menu_driver_selection_ptr s1 \<le> 90) ss"
    by (simp add: last sel size n)
  ultimately show ?thesis by blast
qed

end
